theory Spec2Isabelle
  imports Main "HOL-Library.Word" "HOL-Library.Sublist"
begin

unbundle bit_operations_syntax

section \<open>Bytes, slices and strings\<close>

text \<open>
  A \<open>char\<close> read through \<open>uint8_t\<close> is an 8-bit word. A \<open>Slice\<close> (pointer and size)
  and a \<open>std::string\<close> are both modelled by the list of the bytes they hold.
\<close>

type_synonym byte = "8 word"
type_synonym Slice = "byte list"

text \<open>\<open>std::string::resize(n)\<close>: truncates to \<open>n\<close> bytes, or pads with zero bytes.\<close>

definition resize :: "byte list \<Rightarrow> nat \<Rightarrow> byte list" where
  "resize s n = take n s @ replicate (n - length s) 0"

section \<open>The bytewise comparator (util/comparator.cc)\<close>

text \<open>
  Modelled from the spec: \<open>Slice::compare\<close> lives in leveldb/slice.h, which is not among
  the sources. The spec says the bytewise comparator "orders raw byte strings by unsigned
  lexicographic byte comparison"; the shorter string comes first when it is a prefix of
  the other. The result is negative, zero or positive.
\<close>

fun slice_compare :: "Slice \<Rightarrow> Slice \<Rightarrow> int" where
  "slice_compare [] [] = 0"
| "slice_compare [] (y # ys) = -1"
| "slice_compare (x # xs) [] = 1"
| "slice_compare (x # xs) (y # ys) =
     (if x < y then -1 else if y < x then 1 else slice_compare xs ys)"

text \<open>\<open>BytewiseComparatorImpl::Compare\<close> returns \<open>a.compare(b)\<close>.\<close>

definition BytewiseCompare :: "Slice \<Rightarrow> Slice \<Rightarrow> int" where
  "BytewiseCompare a b = slice_compare a b"

text \<open>
  The \<open>while\<close> loop of \<open>FindShortestSeparator\<close>: it advances \<open>diff_index\<close> as long as it
  is below \<open>min_length\<close> and the two strings agree there.
\<close>

function separator_loop :: "byte list \<Rightarrow> Slice \<Rightarrow> nat \<Rightarrow> nat \<Rightarrow> nat" where
  "separator_loop start limit min_length diff_index =
     (if diff_index < min_length \<and> start ! diff_index = limit ! diff_index
      then separator_loop start limit min_length (diff_index + 1)
      else diff_index)"
  by pat_completeness auto
termination
  by (relation "measure (\<lambda>(s, l, m, i). m - i)") auto

declare separator_loop.simps [simp del]

text \<open>
  \<open>FindShortestSeparator(std::string* start, const Slice& limit)\<close>; the model returns the
  new contents of \<open>*start\<close>. \<open>diff_byte + 1\<close> is computed in \<open>int\<close>, so it does not wrap.
\<close>

definition FindShortestSeparator :: "byte list \<Rightarrow> Slice \<Rightarrow> byte list" where
  "FindShortestSeparator start limit =
     (let min_length = min (length start) (length limit);
          diff_index = separator_loop start limit min_length 0
      in if diff_index \<ge> min_length then start
         else
           (let diff_byte = start ! diff_index
            in if diff_byte < 0xff \<and> uint diff_byte + 1 < uint (limit ! diff_index)
               then resize (start[diff_index := start ! diff_index + 1]) (diff_index + 1)
               else start))"

text \<open>
  The \<open>for\<close> loop of \<open>FindShortSuccessor\<close>, with \<open>n = key->size()\<close>: at the first byte
  that is not \<open>0xff\<close> it stores \<open>byte + 1\<close>, resizes and returns; a run of \<open>0xff\<close> bytes
  is left alone.
\<close>

function successor_loop :: "byte list \<Rightarrow> nat \<Rightarrow> nat \<Rightarrow> byte list" where
  "successor_loop key n i =
     (if i < n then
        (let byte = key ! i
         in if byte \<noteq> 0xff then resize (key[i := byte + 1]) (i + 1)
            else successor_loop key n (i + 1))
      else key)"
  by pat_completeness auto
termination
  by (relation "measure (\<lambda>(k, n, i). n - i)") auto

declare successor_loop.simps [simp del]

definition FindShortSuccessor :: "byte list \<Rightarrow> byte list" where
  "FindShortSuccessor key = successor_loop key (length key) 0"

section \<open>Internal keys (db/dbformat.h)\<close>

text \<open>
  A \<open>SequenceNumber\<close> is a \<open>uint64_t\<close>. The enum \<open>ValueType\<close> is modelled by its
  8-bit code, not by a two-constructor datatype: \<open>ParseInternalKey\<close> stores
  \<open>static_cast<ValueType>(c)\<close> for any byte \<open>c\<close> before it checks the range, so the
  field has to be able to hold a code that names no enumerator.
\<close>

type_synonym SequenceNumber = "64 word"
type_synonym ValueType = byte

definition kTypeDeletion :: ValueType where
  "kTypeDeletion = 0x0"

definition kTypeValue :: ValueType where
  "kTypeValue = 0x1"

definition kValueTypeForSeek :: ValueType where
  "kValueTypeForSeek = kTypeValue"

definition kMaxSequenceNumber :: SequenceNumber where
  "kMaxSequenceNumber = push_bit 56 0x1 - 1"

record ParsedInternalKey =
  user_key :: Slice
  sequence :: SequenceNumber
  type :: ValueType

definition InternalKeyEncodingLength :: "ParsedInternalKey \<Rightarrow> nat" where
  "InternalKeyEncodingLength key = length (user_key key) + 8"

text \<open>
  Modelled from the spec: \<open>DecodeFixed64\<close> and \<open>PutFixed64\<close> live in util/coding.h,
  which is not among the sources. The spec calls them "a little-endian fixed-64-bit
  decode/encode primitive": byte \<open>i\<close> of the buffer holds bits \<open>8 i\<close> to \<open>8 i + 7\<close> of
  the value. \<open>DecodeFixed64\<close> reads the first eight bytes of the buffer it is given.
\<close>

definition DecodeFixed64 :: "byte list \<Rightarrow> 64 word" where
  "DecodeFixed64 buffer =
     ucast (buffer ! 0) OR push_bit 8 (ucast (buffer ! 1)) OR
     push_bit 16 (ucast (buffer ! 2)) OR push_bit 24 (ucast (buffer ! 3)) OR
     push_bit 32 (ucast (buffer ! 4)) OR push_bit 40 (ucast (buffer ! 5)) OR
     push_bit 48 (ucast (buffer ! 6)) OR push_bit 56 (ucast (buffer ! 7))"

definition EncodeFixed64 :: "64 word \<Rightarrow> byte list" where
  "EncodeFixed64 v =
     [ucast v, ucast (drop_bit 8 v), ucast (drop_bit 16 v), ucast (drop_bit 24 v),
      ucast (drop_bit 32 v), ucast (drop_bit 40 v), ucast (drop_bit 48 v),
      ucast (drop_bit 56 v)]"

text \<open>
  Modelled from the spec: \<open>AppendInternalKey\<close> is declared in db/dbformat.h and defined in
  db/dbformat.cc, which is not among the sources. The spec: it "appends \<open>user_key\<close>
  followed by the 8-byte little-endian value \<open>(sequence << 8) | tag\<close> to an output
  buffer". The shift is a 64-bit shift, so bits of the sequence number above bit 55 are
  lost. The model returns the new contents of \<open>*result\<close>.
\<close>

definition PackSequenceAndType :: "SequenceNumber \<Rightarrow> ValueType \<Rightarrow> 64 word" where
  "PackSequenceAndType seq t = push_bit 8 seq OR ucast t"

definition AppendInternalKey :: "byte list \<Rightarrow> ParsedInternalKey \<Rightarrow> byte list" where
  "AppendInternalKey result key =
     result @ user_key key @ EncodeFixed64 (PackSequenceAndType (sequence key) (type key))"

text \<open>
  \<open>ParseInternalKey(const Slice& internal_key, ParsedInternalKey* result)\<close>. The model
  takes the old contents of \<open>*result\<close> and returns the return value together with the
  new contents. The early return for a short slice comes before any write; the three
  fields are written before the range check of \<open>c\<close> decides the return value.
\<close>

definition ParseInternalKey :: "Slice \<Rightarrow> ParsedInternalKey \<Rightarrow> bool \<times> ParsedInternalKey" where
  "ParseInternalKey internal_key result =
     (let n = length internal_key
      in if n < 8 then (False, result)
         else
           (let num = DecodeFixed64 (drop (n - 8) internal_key);
                c = (ucast (num AND 0xff) :: byte);
                result = result\<lparr>sequence := drop_bit 8 num\<rparr>;
                result = result\<lparr>type := c\<rparr>;
                result = result\<lparr>user_key := take (n - 8) internal_key\<rparr>
            in (c \<le> kTypeValue, result)))"

text \<open>
  \<open>ExtractUserKey\<close> asserts \<open>internal_key.size() >= 8\<close>; \<open>None\<close> is the failed assertion.
\<close>

definition ExtractUserKey :: "Slice \<Rightarrow> Slice option" where
  "ExtractUserKey internal_key =
     (if length internal_key \<ge> 8
      then Some (take (length internal_key - 8) internal_key)
      else None)"

text \<open>
  The class \<open>InternalKey\<close> holds one string, \<open>rep_\<close>. Its member functions take the
  object and return the updated one. \<open>Encode\<close> asserts that \<open>rep_\<close> is not empty and
  \<open>user_key()\<close> goes through \<open>ExtractUserKey\<close>: \<open>None\<close> is the failed assertion.
\<close>

record InternalKey =
  rep :: "byte list"

definition InternalKey_default :: InternalKey where
  "InternalKey_default = \<lparr>rep = []\<rparr>"

definition InternalKey_new :: "Slice \<Rightarrow> SequenceNumber \<Rightarrow> ValueType \<Rightarrow> InternalKey" where
  "InternalKey_new k s t =
     \<lparr>rep = AppendInternalKey [] \<lparr>user_key = k, sequence = s, type = t\<rparr>\<rparr>"

definition DecodeFrom :: "InternalKey \<Rightarrow> Slice \<Rightarrow> bool \<times> InternalKey" where
  "DecodeFrom this s = (let this = this\<lparr>rep := s\<rparr> in (rep this \<noteq> [], this))"

definition Encode :: "InternalKey \<Rightarrow> Slice option" where
  "Encode this = (if rep this \<noteq> [] then Some (rep this) else None)"

definition InternalKey_user_key :: "InternalKey \<Rightarrow> Slice option" where
  "InternalKey_user_key this = ExtractUserKey (rep this)"

definition SetFrom :: "InternalKey \<Rightarrow> ParsedInternalKey \<Rightarrow> InternalKey" where
  "SetFrom this p =
     (let this = this\<lparr>rep := []\<rparr> in this\<lparr>rep := AppendInternalKey (rep this) p\<rparr>)"

definition Clear :: "InternalKey \<Rightarrow> InternalKey" where
  "Clear this = this\<lparr>rep := []\<rparr>"

text \<open>
  Modelled from the spec: \<open>InternalKeyComparator::Compare(const Slice&, const Slice&)\<close>
  is declared in db/dbformat.h and defined in db/dbformat.cc, which is not among the
  sources. The spec (section 4.2): "Compare user-key portions using \<open>C\<close>. If unequal,
  that result is the answer. If user keys are equal, compare sequence numbers in
  descending order [...]. If sequence numbers are equal, compare operation tags
  descending." The user comparator is the parameter \<open>user_comparator\<close>; the user-key
  portions are taken with \<open>ExtractUserKey\<close>, the sequence number and the tag from the
  little-endian trailer as \<open>ParseInternalKey\<close> takes them. A negative result means that
  the first key sorts first.
\<close>

definition InternalKeyComparator_Compare ::
  "(Slice \<Rightarrow> Slice \<Rightarrow> int) \<Rightarrow> Slice \<Rightarrow> Slice \<Rightarrow> int option" where
  "InternalKeyComparator_Compare user_comparator akey bkey =
     (case (ExtractUserKey akey, ExtractUserKey bkey) of
        (Some auser, Some buser) \<Rightarrow>
          (let r = user_comparator auser buser
           in if r \<noteq> 0 then Some r
              else
                (let anum = DecodeFixed64 (drop (length akey - 8) akey);
                     bnum = DecodeFixed64 (drop (length bkey - 8) bkey);
                     aseq = drop_bit 8 anum; bseq = drop_bit 8 bnum;
                     atag = anum AND 0xff; btag = bnum AND 0xff
                 in Some (if aseq > bseq then -1
                          else if aseq < bseq then 1
                          else if atag > btag then -1
                          else if atag < btag then 1
                          else 0)))
      | _ \<Rightarrow> None)"

text \<open>
  \<open>InternalKeyComparator::Compare(const InternalKey& a, const InternalKey& b)\<close>, the
  inline overload of db/dbformat.h: \<open>Compare(a.Encode(), b.Encode())\<close>.
\<close>

definition InternalKeyComparator_Compare_keys ::
  "(Slice \<Rightarrow> Slice \<Rightarrow> int) \<Rightarrow> InternalKey \<Rightarrow> InternalKey \<Rightarrow> int option" where
  "InternalKeyComparator_Compare_keys user_comparator a b =
     (case (Encode a, Encode b) of
        (Some aslice, Some bslice) \<Rightarrow> InternalKeyComparator_Compare user_comparator aslice bslice
      | _ \<Rightarrow> None)"

text \<open>
  The order the comparator defines: \<open>a\<close> sorts before \<open>b\<close> when \<open>Compare(a, b)\<close> returns
  a negative number.
\<close>

definition sorts_before ::
  "(Slice \<Rightarrow> Slice \<Rightarrow> int) \<Rightarrow> InternalKey \<Rightarrow> InternalKey \<Rightarrow> bool" where
  "sorts_before user_comparator a b =
     (case InternalKeyComparator_Compare_keys user_comparator a b of
        Some r \<Rightarrow> r < 0
      | None \<Rightarrow> False)"

section \<open>The arena (util/arena.cc)\<close>

text \<open>
  Addresses and sizes are 64-bit words, so \<open>sizeof(void*)\<close> and \<open>sizeof(char*)\<close> are 8;
  pointer arithmetic and \<open>size_t\<close> arithmetic wrap. The members of \<open>Arena\<close> are declared in
  util/arena.h, which is not among the sources; the constructor and
  \<open>AllocateNewBlock\<close> show them: the bump pointer, the bytes left in the current
  block, the list of blocks and the usage counter (an atomic; allocation is
  single-threaded, so it is a plain field here).
\<close>

type_synonym uintptr_t = "64 word"
type_synonym size_t = "64 word"

definition sizeof_pointer :: size_t where
  "sizeof_pointer = 8"

definition kBlockSize :: int where
  "kBlockSize = 4096"

record Arena =
  alloc_ptr :: uintptr_t
  alloc_bytes_remaining :: size_t
  blocks :: "uintptr_t list"
  memory_usage :: size_t

definition Arena_new :: Arena where
  "Arena_new = \<lparr>alloc_ptr = 0, alloc_bytes_remaining = 0, blocks = [], memory_usage = 0\<rparr>"

text \<open>
  The system allocator. The heap is the list of the blocks \<open>new char[n]\<close> has handed
  out so far, each with its address and size; which address the next block gets is the
  allocator's choice, the parameter \<open>sys\<close> of every function below.
\<close>

type_synonym heap = "(uintptr_t \<times> size_t) list"

definition new_char_array ::
  "(heap \<Rightarrow> size_t \<Rightarrow> uintptr_t) \<Rightarrow> size_t \<Rightarrow> heap \<Rightarrow> uintptr_t \<times> heap" where
  "new_char_array sys n h = (sys h n, h @ [(sys h n, n)])"

definition AllocateNewBlock ::
  "(heap \<Rightarrow> size_t \<Rightarrow> uintptr_t) \<Rightarrow> size_t \<Rightarrow> Arena \<times> heap \<Rightarrow>
   uintptr_t \<times> Arena \<times> heap" where
  "AllocateNewBlock sys block_bytes s =
     (case s of (this, h) \<Rightarrow>
        (case new_char_array sys block_bytes h of (result, h') \<Rightarrow>
           (let this = this\<lparr>blocks := blocks this @ [result]\<rparr>;
                this = this\<lparr>memory_usage := memory_usage this + (block_bytes + sizeof_pointer)\<rparr>
            in (result, this, h'))))"

text \<open>
  In \<open>bytes > kBlockSize / 4\<close> the \<open>int\<close> quotient is converted to \<open>size_t\<close>.
\<close>

definition AllocateFallback ::
  "(heap \<Rightarrow> size_t \<Rightarrow> uintptr_t) \<Rightarrow> size_t \<Rightarrow> Arena \<times> heap \<Rightarrow>
   uintptr_t \<times> Arena \<times> heap" where
  "AllocateFallback sys bytes s =
     (if bytes > word_of_int (kBlockSize div 4) then
        (case AllocateNewBlock sys bytes s of (result, s') \<Rightarrow> (result, s'))
      else
        (case AllocateNewBlock sys (word_of_int kBlockSize) s of (p, this, h) \<Rightarrow>
           (let this = this\<lparr>alloc_ptr := p\<rparr>;
                this = this\<lparr>alloc_bytes_remaining := word_of_int kBlockSize\<rparr>;
                result = alloc_ptr this;
                this = this\<lparr>alloc_ptr := alloc_ptr this + bytes\<rparr>;
                this = this\<lparr>alloc_bytes_remaining := alloc_bytes_remaining this - bytes\<rparr>
            in (result, this, h))))"

text \<open>
  \<open>AllocateAligned\<close> ends with \<open>assert((result & (align - 1)) == 0)\<close>; \<open>None\<close> is the
  failed assertion.
\<close>

definition AllocateAligned ::
  "(heap \<Rightarrow> size_t \<Rightarrow> uintptr_t) \<Rightarrow> size_t \<Rightarrow> Arena \<times> heap \<Rightarrow>
   (uintptr_t \<times> Arena \<times> heap) option" where
  "AllocateAligned sys bytes s =
     (case s of (this, h) \<Rightarrow>
        (let align = (if sizeof_pointer > 8 then sizeof_pointer else 8);
             current_mod = alloc_ptr this AND (align - 1);
             slop = (if current_mod = 0 then 0 else align - current_mod);
             needed = bytes + slop;
             (result, s') =
               (if needed \<le> alloc_bytes_remaining this then
                  (alloc_ptr this + slop,
                   this\<lparr>alloc_ptr := alloc_ptr this + needed,
                        alloc_bytes_remaining := alloc_bytes_remaining this - needed\<rparr>, h)
                else AllocateFallback sys bytes s)
         in if result AND (align - 1) = 0 then Some (result, s') else None))"

section \<open>Properties of the bytewise order\<close>

lemma slice_compare_refl [simp]: "slice_compare a a = 0"
  by (induction a) auto

lemma slice_compare_eq_0: "slice_compare a b = 0 \<longleftrightarrow> a = b"
  by (induction a b rule: slice_compare.induct) auto

lemma slice_compare_antisym: "slice_compare a b < 0 \<longleftrightarrow> 0 < slice_compare b a"
  by (induction a b rule: slice_compare.induct) auto

lemma slice_compare_append [simp]: "slice_compare (p @ a) (p @ b) = slice_compare a b"
  by (induction p) auto

lemma slice_compare_trans:
  "slice_compare a b < 0 \<Longrightarrow> slice_compare b c < 0 \<Longrightarrow> slice_compare a c < 0"
proof (induction a b arbitrary: c rule: slice_compare.induct)
  case (2 y ys)
  then show ?case by (cases c) auto
next
  case (4 x xs y ys)
  then show ?case
    by (cases c) (auto split: if_splits)
qed auto

section \<open>FindShortSuccessor\<close>

lemma successor_loop_char:
  "i \<le> length key \<Longrightarrow>
   successor_loop key (length key) i =
     (if \<forall>b \<in> set (drop i key). b = 0xff then key
      else take i key @ takeWhile (\<lambda>b. b = 0xff) (drop i key) @
           [hd (dropWhile (\<lambda>b. b = 0xff) (drop i key)) + 1])"
proof (induction key "length key" i rule: successor_loop.induct)
  case (1 key i)
  show ?case
  proof (cases "i < length key")
    case False
    with 1 show ?thesis by (simp add: successor_loop.simps)
  next
    case True
    then have d: "drop i key = key ! i # drop (Suc i) key"
      by (simp add: Cons_nth_drop_Suc)
    show ?thesis
    proof (cases "key ! i = 0xff")
      case ff: True
      have "successor_loop key (length key) i = successor_loop key (length key) (Suc i)"
        using True ff by (subst successor_loop.simps) simp
      then show ?thesis
        using "1.hyps" [OF True refl] ff True d
        by (simp add: take_Suc_conv_app_nth)
    next
      case False
      with \<open>i < length key\<close> d show ?thesis
        by (subst successor_loop.simps) (simp add: resize_def take_Suc_conv_app_nth)
    qed
  qed
qed

lemma FindShortSuccessor_char:
  "FindShortSuccessor key =
     (if \<forall>b \<in> set key. b = 0xff then key
      else takeWhile (\<lambda>b. b = 0xff) key @ [hd (dropWhile (\<lambda>b. b = 0xff) key) + 1])"
  using successor_loop_char [of 0 key] by (simp add: FindShortSuccessor_def)

lemma byte_less_succ: "(b::byte) \<noteq> 0xff \<Longrightarrow> b < b + 1"
proof -
  assume "b \<noteq> 0xff"
  then have "uint b \<noteq> 255"
    by (metis word_of_int_uint word_of_int_numeral)
  moreover have "uint b < 256" "0 \<le> uint b"
    using uint_bounded [of b] by simp_all
  ultimately have "uint b + 1 < 256" by simp
  then have "(uint b + 1) mod 256 = uint b + 1"
    using \<open>0 \<le> uint b\<close> by simp
  then show ?thesis
    by (simp add: word_less_def uint_word_ariths)
qed

lemma byte_less_succ2:
  assumes "uint (a::byte) + 1 < uint (b :: byte)"
  shows "a < a + 1 \<and> a + 1 < b"
proof -
  have "uint b < 256" "0 \<le> uint a"
    using uint_bounded [of b] by simp_all
  with assms have "(uint a + 1) mod 256 = uint a + 1"
    by simp
  with assms show ?thesis
    by (simp add: word_less_def uint_word_ariths)
qed


text \<open>
  Claim C6. For a key with at least one byte other than \<open>0xff\<close>, \<open>FindShortSuccessor\<close>
  returns the leading run of \<open>0xff\<close> bytes followed by the first other byte plus one
  (that byte incremented, the string cut right after it); the result is strictly greater
  than the key in bytewise order and no longer than the key. A key whose bytes are all
  \<open>0xff\<close>, the empty key included, is returned unchanged.
\<close>

theorem FindShortSuccessor_successor:
  "((\<exists>b \<in> set key. b \<noteq> 0xff) \<longrightarrow>
      FindShortSuccessor key =
        takeWhile (\<lambda>b. b = 0xff) key @ [hd (dropWhile (\<lambda>b. b = 0xff) key) + 1] \<and>
      BytewiseCompare key (FindShortSuccessor key) < 0 \<and>
      length (FindShortSuccessor key) \<le> length key) \<and>
   ((\<forall>b \<in> set key. b = 0xff) \<longrightarrow> FindShortSuccessor key = key)"
proof (intro conjI impI)
  assume all: "\<forall>b \<in> set key. b = 0xff"
  then show "FindShortSuccessor key = key"
    by (simp add: FindShortSuccessor_char)
next
  assume ex: "\<exists>b \<in> set key. b \<noteq> 0xff"
  define pre where "pre = takeWhile (\<lambda>b. b = 0xff) key"
  define suf where "suf = dropWhile (\<lambda>b. b = 0xff) key"
  have key: "key = pre @ suf"
    by (simp add: pre_def suf_def)
  from ex have "suf \<noteq> []"
    by (auto simp: suf_def)
  then obtain b rest where suf: "suf = b # rest"
    by (cases suf) auto
  have "b \<noteq> 0xff"
    using hd_dropWhile [of "\<lambda>b. b = 0xff" key] \<open>suf \<noteq> []\<close> suf by (simp add: suf_def)
  then have lt: "b < b + 1"
    by (rule byte_less_succ)
  from ex show r: "FindShortSuccessor key =
      takeWhile (\<lambda>b. b = 0xff) key @ [hd (dropWhile (\<lambda>b. b = 0xff) key) + 1]"
    by (auto simp: FindShortSuccessor_char)
  then have r': "FindShortSuccessor key = pre @ [b + 1]"
    using suf by (simp add: pre_def suf_def)
  show "BytewiseCompare key (FindShortSuccessor key) < 0"
    unfolding r' BytewiseCompare_def by (subst key) (simp add: suf lt)
  show "length (FindShortSuccessor key) \<le> length key"
    using arg_cong [OF key, of length] by (simp add: r' suf)
qed

text \<open>Claim C6, at the keys \<open>ff 61 62\<close> (one byte incremented) and \<open>ff ff\<close> (unchanged).\<close>

theorem FindShortSuccessor_successor_witness:
  "list_ex (\<lambda>b. b \<noteq> 0xff) [0xff, 0x61, 0x62 :: byte] \<and>
   FindShortSuccessor [0xff, 0x61, 0x62] = [0xff, 0x62] \<and>
   BytewiseCompare [0xff, 0x61, 0x62] (FindShortSuccessor [0xff, 0x61, 0x62]) < 0 \<and>
   length (FindShortSuccessor [0xff, 0x61, 0x62]) \<le> 3 \<and>
   list_all (\<lambda>b. b = 0xff) [0xff, 0xff :: byte] \<and>
   FindShortSuccessor [0xff, 0xff] = [0xff, 0xff]"
  using FindShortSuccessor_successor [of "[0xff, 0x61, 0x62]"]
    FindShortSuccessor_successor [of "[0xff, 0xff]"]
  by (simp add: BytewiseCompare_def)

text \<open>
  Claim C7, as the code has it. The first byte of \<open>"ab\xff\xff"\<close> that is not \<open>0xff\<close>
  is \<open>'a'\<close>, at index 0, so the result is the one-byte string \<open>"b"\<close>.
\<close>

theorem FindShortSuccessor_ab_ff_ff:
  "FindShortSuccessor [0x61, 0x62, 0xff, 0xff] = [0x62]"
  by (simp add: FindShortSuccessor_def successor_loop.simps resize_def)

text \<open>Claim C7, as stated, fails: the result is not \<open>"ac"\<close>.\<close>

theorem FindShortSuccessor_ab_ff_ff_not_ac:
  "FindShortSuccessor [0x61, 0x62, 0xff, 0xff] \<noteq> [0x61, 0x63]"
  by (simp add: FindShortSuccessor_def successor_loop.simps resize_def)

section \<open>FindShortestSeparator\<close>

lemma separator_loop_char:
  "i \<le> m \<Longrightarrow>
   i \<le> separator_loop s l m i \<and> separator_loop s l m i \<le> m \<and>
   (\<forall>j. i \<le> j \<and> j < separator_loop s l m i \<longrightarrow> s ! j = l ! j) \<and>
   (separator_loop s l m i < m \<longrightarrow>
      s ! separator_loop s l m i \<noteq> l ! separator_loop s l m i)"
proof (induction s l m i rule: separator_loop.induct)
  case (1 s l m i)
  show ?case
  proof (cases "i < m \<and> s ! i = l ! i")
    case False
    with 1(2) show ?thesis
      by (subst (1 2 3 4 5 6) separator_loop.simps) auto
  next
    case True
    then have eq: "separator_loop s l m i = separator_loop s l m (i + 1)"
      by (subst separator_loop.simps) simp
    from True have "i + 1 \<le> m" by simp
    have split: "j = i \<or> i + 1 \<le> j" if "i \<le> j" for j
      using that by arith
    from "1.IH" [OF True \<open>i + 1 \<le> m\<close>] True show ?thesis
      unfolding eq by (auto dest: split)
  qed
qed


lemma separator_loop_prefix:
  assumes "d = separator_loop s l (min (length s) (length l)) 0"
  shows "d \<le> min (length s) (length l)" and "take d s = take d l"
    and "d < min (length s) (length l) \<Longrightarrow> s ! d \<noteq> l ! d"
proof -
  note c = separator_loop_char [of 0 "min (length s) (length l)" s l, folded assms]
  from c show le: "d \<le> min (length s) (length l)" by simp
  from c have "\<forall>j<d. s ! j = l ! j" by simp
  with le show "take d s = take d l"
    by (intro nth_take_lemma) auto
  from c show "d < min (length s) (length l) \<Longrightarrow> s ! d \<noteq> l ! d" by simp
qed

text \<open>
  Claim C5. For \<open>start < limit\<close> in bytewise order, the string \<open>FindShortestSeparator\<close>
  leaves in \<open>*start\<close> satisfies \<open>start \<le> result < limit\<close> and is no longer than
  \<open>start\<close>; when one of the two strings is a prefix of the other, \<open>start\<close> is unchanged.
\<close>

theorem FindShortestSeparator_separates:
  assumes "BytewiseCompare start limit < 0"
  shows "BytewiseCompare start (FindShortestSeparator start limit) \<le> 0 \<and>
         BytewiseCompare (FindShortestSeparator start limit) limit < 0 \<and>
         length (FindShortestSeparator start limit) \<le> length start \<and>
         (prefix start limit \<or> prefix limit start \<longrightarrow>
            FindShortestSeparator start limit = start)"
proof -
  define m where "m = min (length start) (length limit)"
  define d where "d = separator_loop start limit m 0"
  note p = separator_loop_prefix [OF d_def [unfolded m_def], folded m_def]
  show ?thesis
  proof (cases "d \<ge> m")
    case True
    then have "FindShortestSeparator start limit = start"
      by (simp add: FindShortestSeparator_def Let_def m_def [symmetric] d_def [symmetric])
    with assms show ?thesis
      by (simp add: BytewiseCompare_def)
  next
    case False
    then have dm: "d < m" by simp
    then have ds: "d < length start" and dl: "d < length limit"
      by (simp_all add: m_def)
    have ne: "start ! d \<noteq> limit ! d"
      using p(3) dm by simp
    have s: "start = take d start @ start ! d # drop (Suc d) start"
      using ds by (simp add: id_take_nth_drop [symmetric])
    have l: "limit = take d start @ limit ! d # drop (Suc d) limit"
      using dl p(2) by (simp add: id_take_nth_drop [symmetric])
    have np: "\<not> prefix start limit" "\<not> prefix limit start"
      using ne ds dl by (auto simp: prefix_def nth_append)
    show ?thesis
    proof (cases "start ! d < 0xff \<and> uint (start ! d) + 1 < uint (limit ! d)")
      case False
      with dm have "FindShortestSeparator start limit = start"
        by (auto simp add: FindShortestSeparator_def Let_def m_def [symmetric] d_def [symmetric])
      with assms np show ?thesis
        by (simp add: BytewiseCompare_def)
    next
      case True
      with dm ds have r: "FindShortestSeparator start limit = take d start @ [start ! d + 1]"
        by (simp add: FindShortestSeparator_def Let_def m_def [symmetric] d_def [symmetric]
            resize_def take_Suc_conv_app_nth)
      from True have lt: "start ! d < start ! d + 1" "start ! d + 1 < limit ! d"
        using byte_less_succ2 by blast+
      have "slice_compare start (take d start @ [start ! d + 1]) < 0"
        by (subst s) (simp add: lt)
      moreover have "slice_compare (take d start @ [start ! d + 1]) limit < 0"
        by (subst l) (simp add: lt)
      ultimately show ?thesis
        using np ds by (simp add: r BytewiseCompare_def)
    qed
  qed
qed

text \<open>
  Claim C5, at \<open>start = "hewo"\<close>, \<open>limit = "hez"\<close> (shortened to \<open>"hex"\<close>) and at
  \<open>start = "he"\<close>, a prefix of the same limit (unchanged).
\<close>

theorem FindShortestSeparator_separates_witness:
  "BytewiseCompare [0x68, 0x65, 0x77, 0x6f] [0x68, 0x65, 0x7a] < 0 \<and>
   FindShortestSeparator [0x68, 0x65, 0x77, 0x6f] [0x68, 0x65, 0x7a] = [0x68, 0x65, 0x78] \<and>
   BytewiseCompare [0x68, 0x65, 0x77, 0x6f]
     (FindShortestSeparator [0x68, 0x65, 0x77, 0x6f] [0x68, 0x65, 0x7a]) \<le> 0 \<and>
   BytewiseCompare (FindShortestSeparator [0x68, 0x65, 0x77, 0x6f] [0x68, 0x65, 0x7a])
     [0x68, 0x65, 0x7a] < 0 \<and>
   length (FindShortestSeparator [0x68, 0x65, 0x77, 0x6f] [0x68, 0x65, 0x7a]) \<le> 4 \<and>
   BytewiseCompare [0x68, 0x65] [0x68, 0x65, 0x7a] < 0 \<and>
   prefix [0x68, 0x65 :: byte] [0x68, 0x65, 0x7a] \<and>
   FindShortestSeparator [0x68, 0x65] [0x68, 0x65, 0x7a] = [0x68, 0x65]"
proof -
  have h: "BytewiseCompare [0x68, 0x65, 0x77, 0x6f] [0x68, 0x65, 0x7a] < 0"
    by (simp add: BytewiseCompare_def)
  have e: "FindShortestSeparator [0x68, 0x65, 0x77, 0x6f] [0x68, 0x65, 0x7a] = [0x68, 0x65, 0x78]"
    by (simp add: FindShortestSeparator_def separator_loop.simps resize_def)
  have h': "BytewiseCompare [0x68, 0x65] [0x68, 0x65, 0x7a] < 0"
    by (simp add: BytewiseCompare_def)
  have p: "prefix [0x68, 0x65 :: byte] [0x68, 0x65, 0x7a]"
    by simp
  from FindShortestSeparator_separates [OF h] FindShortestSeparator_separates [OF h'] h e h' p
  show ?thesis
    by simp
qed

section \<open>The fixed-width codec\<close>

lemma length_EncodeFixed64 [simp]: "length (EncodeFixed64 v) = 8"
  by (simp add: EncodeFixed64_def)

lemma byte_field:
  "bit (push_bit k (ucast (ucast (drop_bit k v :: 64 word) :: byte) :: 64 word)) n \<longleftrightarrow>
     k \<le> n \<and> n < k + 8 \<and> n < 64 \<and> bit v n"
  by (auto simp add: bit_simps)

lemma byte_field0:
  "bit (ucast (ucast (v :: 64 word) :: byte) :: 64 word) n \<longleftrightarrow> n < 8 \<and> bit v n"
  by (auto simp add: bit_simps)

lemma DecodeFixed64_EncodeFixed64: "DecodeFixed64 (EncodeFixed64 v) = v"
proof (rule bit_word_eqI)
  fix n assume "n < LENGTH(64)"
  then have n: "n < 64" by simp
  then have "n < 8 \<or> (8 \<le> n \<and> n < 16) \<or> (16 \<le> n \<and> n < 24) \<or> (24 \<le> n \<and> n < 32) \<or>
    (32 \<le> n \<and> n < 40) \<or> (40 \<le> n \<and> n < 48) \<or> (48 \<le> n \<and> n < 56) \<or> (56 \<le> n \<and> n < 64)"
    by arith
  then show "bit (DecodeFixed64 (EncodeFixed64 v)) n = bit v n"
    unfolding DecodeFixed64_def EncodeFixed64_def
    by (simp add: bit_or_iff byte_field byte_field0 n) arith
qed

lemma bit_byte_less: "bit (b :: byte) m \<Longrightarrow> m < 8"
  using bit_imp_le_length [of b m] by simp

lemma EncodeFixed64_DecodeFixed64:
  assumes "length bs = 8"
  shows "EncodeFixed64 (DecodeFixed64 bs) = bs"
proof -
  from assms obtain b0 b1 b2 b3 b4 b5 b6 b7 where bs: "bs = [b0, b1, b2, b3, b4, b5, b6, b7]"
    by (auto simp: length_Suc_conv eval_nat_numeral)
  show ?thesis
    unfolding bs DecodeFixed64_def EncodeFixed64_def
    apply simp
    apply (intro conjI bit_word_eqI)
           apply (auto simp add: bit_simps dest: bit_byte_less)
    done
qed

lemma bit_le_kMax:
  assumes "s \<le> kMaxSequenceNumber" and "bit s n"
  shows "n < 56"
proof -
  have "kMaxSequenceNumber < 2 ^ 56"
    by (simp add: kMaxSequenceNumber_def)
  with assms(1) have "s < 2 ^ 56"
    by (rule le_less_trans)
  then have "s AND mask 56 = s"
    by (rule less_mask_eq)
  then have "bit (s AND mask 56) n"
    using assms(2) by simp
  then show ?thesis
    by (simp add: bit_simps)
qed

lemma drop_bit_Pack:
  "s \<le> kMaxSequenceNumber \<Longrightarrow> drop_bit 8 (PackSequenceAndType s t) = s"
  unfolding PackSequenceAndType_def
  by (rule bit_word_eqI) (auto simp add: bit_simps dest: bit_le_kMax bit_byte_less)

lemma low_byte_Pack: "ucast (PackSequenceAndType s t AND 0xff) = t"
proof -
  have m: "(0xff :: 64 word) = mask 8"
    by (simp add: mask_eq_exp_minus_1)
  show ?thesis
    unfolding PackSequenceAndType_def m
    by (intro bit_word_eqI) (auto simp add: bit_simps dest: bit_byte_less)
qed

lemma low_byte_unat: "unat (ucast ((w :: 64 word) AND 0xff) :: byte) = unat (w AND 0xff)"
proof -
  have "w AND 0xff \<le> 0xff"
    by (rule word_and_le1)
  then have "unat (w AND 0xff) \<le> 255"
    by (simp add: word_le_nat_alt)
  then show ?thesis
    by (simp add: unsigned_ucast_eq take_bit_nat_eq_self_iff)
qed

lemma low_byte_le: "(ucast ((w :: 64 word) AND 0xff) :: byte) \<le> kTypeValue \<longleftrightarrow> w AND 0xff \<le> 1"
  by (simp add: word_le_nat_alt low_byte_unat kTypeValue_def)

lemma low_byte_less:
  "(ucast ((v :: 64 word) AND 0xff) :: byte) < ucast ((w :: 64 word) AND 0xff) \<longleftrightarrow>
     v AND 0xff < w AND 0xff"
  by (simp add: word_less_nat_alt low_byte_unat)

lemma low_byte_eq:
  "(ucast ((v :: 64 word) AND 0xff) :: byte) = ucast ((w :: 64 word) AND 0xff) \<longleftrightarrow>
     v AND 0xff = w AND 0xff"
  by (metis low_byte_unat word_unat_eq_iff)

lemma tag_word_eqI:
  fixes a b :: "64 word"
  assumes "drop_bit 8 a = drop_bit 8 b" and "a AND 0xff = b AND 0xff"
  shows "a = b"
proof (rule bit_word_eqI)
  fix n assume "n < LENGTH(64)"
  have m: "(0xff :: 64 word) = mask 8"
    by (simp add: mask_eq_exp_minus_1)
  show "bit a n = bit b n"
  proof (cases "n < 8")
    case True
    from assms(2) have "bit (a AND mask 8) n = bit (b AND mask 8) n"
      by (simp add: m)
    with True show ?thesis
      by (simp add: bit_simps)
  next
    case False
    from assms(1) have "bit (drop_bit 8 a) (n - 8) = bit (drop_bit 8 b) (n - 8)"
      by simp
    with False show ?thesis
      by (simp add: bit_simps)
  qed
qed

lemma internal_key_eqI:
  assumes "8 \<le> length x" and "8 \<le> length y"
    and "take (length x - 8) x = take (length y - 8) y"
    and "DecodeFixed64 (drop (length x - 8) x) = DecodeFixed64 (drop (length y - 8) y)"
  shows "x = y"
proof -
  have lx: "length (drop (length x - 8) x) = 8" and ly: "length (drop (length y - 8) y) = 8"
    using assms(1,2) by simp_all
  have "drop (length x - 8) x = EncodeFixed64 (DecodeFixed64 (drop (length x - 8) x))"
    by (rule EncodeFixed64_DecodeFixed64 [OF lx, symmetric])
  also have "\<dots> = EncodeFixed64 (DecodeFixed64 (drop (length y - 8) y))"
    by (simp only: assms(4))
  also have "\<dots> = drop (length y - 8) y"
    by (rule EncodeFixed64_DecodeFixed64 [OF ly])
  finally have "take (length x - 8) x @ drop (length x - 8) x =
      take (length y - 8) y @ drop (length y - 8) y"
    by (simp only: assms(3))
  then show ?thesis
    by (simp only: append_take_drop_id)
qed

section \<open>Encoding and parsing internal keys\<close>

lemma Parse_Append:
  "ParseInternalKey (AppendInternalKey [] key) r =
     (let num = PackSequenceAndType (sequence key) (type key);
          c = (ucast (num AND 0xff) :: byte)
      in (c \<le> kTypeValue, \<lparr>user_key = user_key key, sequence = drop_bit 8 num, type = c\<rparr>))"
  by (simp add: ParseInternalKey_def AppendInternalKey_def Let_def DecodeFixed64_EncodeFixed64)

lemma Parse_valid:
  assumes "8 \<le> length x"
  shows "snd (ParseInternalKey x r) =
    \<lparr>user_key = take (length x - 8) x,
     sequence = drop_bit 8 (DecodeFixed64 (drop (length x - 8) x)),
     type = ucast (DecodeFixed64 (drop (length x - 8) x) AND 0xff)\<rparr>"
  using assms by (simp add: ParseInternalKey_def Let_def)

text \<open>
  Claim C2. For every user key \<open>k\<close>, every sequence number \<open>s \<le> 2^56 - 1\<close> and every
  operation code \<open>t\<close> among \<open>kTypeDeletion\<close> and \<open>kTypeValue\<close>, \<open>ParseInternalKey\<close>
  applied to the string \<open>AppendInternalKey\<close> builds from \<open>(k, s, t)\<close> returns true with
  exactly \<open>(k, s, t)\<close> in \<open>*result\<close>, whatever \<open>*result\<close> held before, and the
  string has \<open>length k + 8\<close> bytes.
\<close>

theorem ParseInternalKey_AppendInternalKey:
  assumes "s \<le> kMaxSequenceNumber" and "t = kTypeDeletion \<or> t = kTypeValue"
  shows "ParseInternalKey (AppendInternalKey [] \<lparr>user_key = k, sequence = s, type = t\<rparr>) r =
           (True, \<lparr>user_key = k, sequence = s, type = t\<rparr>) \<and>
         length (AppendInternalKey [] \<lparr>user_key = k, sequence = s, type = t\<rparr>) = length k + 8"
proof -
  from assms(2) have "t \<le> kTypeValue"
    by (auto simp: kTypeDeletion_def kTypeValue_def)
  with assms(1) have "ParseInternalKey (AppendInternalKey [] \<lparr>user_key = k, sequence = s, type = t\<rparr>) r =
           (True, \<lparr>user_key = k, sequence = s, type = t\<rparr>)"
    by (simp add: Parse_Append Let_def drop_bit_Pack low_byte_Pack)
  then show ?thesis
    by (simp add: AppendInternalKey_def)
qed

text \<open>
  Claim C2, at the key \<open>("bar", 42, kTypeValue)\<close>.
\<close>

theorem ParseInternalKey_AppendInternalKey_witness:
  "(42 :: SequenceNumber) \<le> kMaxSequenceNumber \<and>
   ParseInternalKey (AppendInternalKey [] \<lparr>user_key = [0x62, 0x61, 0x72], sequence = 42, type = kTypeValue\<rparr>)
       \<lparr>user_key = [], sequence = 0, type = 0\<rparr> =
     (True, \<lparr>user_key = [0x62, 0x61, 0x72], sequence = 42, type = kTypeValue\<rparr>) \<and>
   length (AppendInternalKey [] \<lparr>user_key = [0x62, 0x61, 0x72], sequence = 42, type = kTypeValue\<rparr>) = 11"
proof -
  have h: "(42 :: SequenceNumber) \<le> kMaxSequenceNumber"
    by (simp add: kMaxSequenceNumber_def)
  from ParseInternalKey_AppendInternalKey [OF h, of kTypeValue "[0x62, 0x61, 0x72]"
      "\<lparr>user_key = [], sequence = 0, type = 0\<rparr>"] h
  show ?thesis by simp
qed

text \<open>
  Claim C3. \<open>ParseInternalKey\<close> returns false on fewer than 8 bytes (and leaves
  \<open>*result\<close> alone). On 8 bytes or more, with \<open>word\<close> the little-endian value of the
  last 8 bytes, it returns true exactly when \<open>word AND 0xff\<close> is at most 1
  (\<open>kTypeValue\<close>), and on success \<open>*result\<close> holds the prefix before the last 8 bytes
  as user key, \<open>word >> 8\<close> as sequence number and \<open>word AND 0xff\<close> as type.
\<close>

theorem ParseInternalKey_result:
  "(length bytes < 8 \<longrightarrow> ParseInternalKey bytes result = (False, result)) \<and>
   (8 \<le> length bytes \<longrightarrow>
      (fst (ParseInternalKey bytes result) \<longleftrightarrow>
         DecodeFixed64 (drop (length bytes - 8) bytes) AND 0xff \<le> 1) \<and>
      (fst (ParseInternalKey bytes result) \<longrightarrow>
         snd (ParseInternalKey bytes result) =
           \<lparr>user_key = take (length bytes - 8) bytes,
            sequence = drop_bit 8 (DecodeFixed64 (drop (length bytes - 8) bytes)),
            type = ucast (DecodeFixed64 (drop (length bytes - 8) bytes) AND 0xff)\<rparr>))"
  by (simp add: ParseInternalKey_def Let_def low_byte_le)

text \<open>
  Claim C3, at a one-byte input (rejected) and at the encoding of \<open>("a", 42, 1)\<close>
  (accepted).
\<close>

theorem ParseInternalKey_result_witness:
  "length [0x61 :: byte] < 8 \<and>
   ParseInternalKey [0x61] \<lparr>user_key = [], sequence = 7, type = 0\<rparr> =
     (False, \<lparr>user_key = [], sequence = 7, type = 0\<rparr>) \<and>
   8 \<le> length [0x61, 0x01, 0x2a, 0, 0, 0, 0, 0, 0 :: byte] \<and>
   fst (ParseInternalKey [0x61, 0x01, 0x2a, 0, 0, 0, 0, 0, 0] \<lparr>user_key = [], sequence = 7, type = 0\<rparr>) \<and>
   snd (ParseInternalKey [0x61, 0x01, 0x2a, 0, 0, 0, 0, 0, 0] \<lparr>user_key = [], sequence = 7, type = 0\<rparr>) =
     \<lparr>user_key = [0x61], sequence = 42, type = 1\<rparr>"
proof -
  have d: "DecodeFixed64 [0x01, 0x2a, 0, 0, 0, 0, 0, 0] = 0x2a01"
    by (simp add: DecodeFixed64_def)
  have f: "fst (ParseInternalKey [0x61, 0x01, 0x2a, 0, 0, 0, 0, 0, 0] \<lparr>user_key = [], sequence = 7, type = 0\<rparr>)"
    by (simp add: ParseInternalKey_def Let_def d kTypeValue_def)
  from ParseInternalKey_result [of "[0x61]" "\<lparr>user_key = [], sequence = 7, type = 0\<rparr>"]
    ParseInternalKey_result [of "[0x61, 0x01, 0x2a, 0, 0, 0, 0, 0, 0]" "\<lparr>user_key = [], sequence = 7, type = 0\<rparr>"]
    f d
  show ?thesis by simp
qed

text \<open>
  Claim C10. On 8 bytes or more whose trailer has a low byte above \<open>kTypeValue\<close>,
  \<open>ParseInternalKey\<close> returns false and \<open>*result\<close> holds the decoded fields all the
  same: the prefix as user key, \<open>word >> 8\<close> as sequence number and the out-of-range
  code as type.
\<close>

theorem ParseInternalKey_failure_writes_result:
  assumes "8 \<le> length bytes"
    and "kTypeValue < ucast (DecodeFixed64 (drop (length bytes - 8) bytes) AND 0xff)"
  shows "ParseInternalKey bytes result =
           (False, \<lparr>user_key = take (length bytes - 8) bytes,
                    sequence = drop_bit 8 (DecodeFixed64 (drop (length bytes - 8) bytes)),
                    type = ucast (DecodeFixed64 (drop (length bytes - 8) bytes) AND 0xff)\<rparr>)"
  using assms by (simp add: ParseInternalKey_def Let_def not_le [symmetric])

text \<open>
  Claim C10, at a 9-byte input with operation code 2: the call fails and \<open>*result\<close> is
  no longer what it was.
\<close>

theorem ParseInternalKey_failure_writes_result_witness:
  "8 \<le> length [0x61, 0x02, 0x2a, 0, 0, 0, 0, 0, 0 :: byte] \<and>
   kTypeValue < ucast (DecodeFixed64 [0x02, 0x2a, 0, 0, 0, 0, 0, 0] AND 0xff) \<and>
   ParseInternalKey [0x61, 0x02, 0x2a, 0, 0, 0, 0, 0, 0] \<lparr>user_key = [], sequence = 7, type = 0\<rparr> =
     (False, \<lparr>user_key = [0x61], sequence = 42, type = 2\<rparr>) \<and>
   snd (ParseInternalKey [0x61, 0x02, 0x2a, 0, 0, 0, 0, 0, 0] \<lparr>user_key = [], sequence = 7, type = 0\<rparr>) \<noteq>
     \<lparr>user_key = [], sequence = 7, type = 0\<rparr>"
proof -
  have d: "DecodeFixed64 [0x02, 0x2a, 0, 0, 0, 0, 0, 0] = 0x2a02"
    by (simp add: DecodeFixed64_def)
  have l: "8 \<le> length [0x61, 0x02, 0x2a, 0, 0, 0, 0, 0, 0 :: byte]"
    by simp
  have c: "kTypeValue < ucast (DecodeFixed64 (drop (length [0x61, 0x02, 0x2a, 0, 0, 0, 0, 0, 0 :: byte] - 8)
      [0x61, 0x02, 0x2a, 0, 0, 0, 0, 0, 0]) AND 0xff)"
    by (simp add: d kTypeValue_def)
  from ParseInternalKey_failure_writes_result [OF l c, of "\<lparr>user_key = [], sequence = 7, type = 0\<rparr>"] d
  show ?thesis by (simp add: kTypeValue_def)
qed

section \<open>The InternalKey invariant\<close>

text \<open>
  Claim C4, as the code has it. The constructor \<open>InternalKey(user_key, s, t)\<close> and
  \<open>SetFrom\<close> leave a representation of at least 8 bytes whose prefix before the last 8
  bytes is the user key and whose last 8 bytes are the little-endian tag word
  \<open>(s << 8) | t\<close>. \<open>DecodeFrom\<close> stores the bytes it is given and returns true exactly
  when they are not empty; the stored key has at least 8 bytes, with the prefix as its
  user key, when the input has.
\<close>

theorem InternalKey_invariant:
  "8 \<le> length (rep (InternalKey_new k s t)) \<and>
   InternalKey_user_key (InternalKey_new k s t) = Some k \<and>
   DecodeFixed64 (drop (length (rep (InternalKey_new k s t)) - 8) (rep (InternalKey_new k s t))) =
     push_bit 8 s OR ucast t \<and>
   8 \<le> length (rep (SetFrom this \<lparr>user_key = k, sequence = s, type = t\<rparr>)) \<and>
   InternalKey_user_key (SetFrom this \<lparr>user_key = k, sequence = s, type = t\<rparr>) = Some k \<and>
   DecodeFixed64 (drop (length (rep (SetFrom this \<lparr>user_key = k, sequence = s, type = t\<rparr>)) - 8)
       (rep (SetFrom this \<lparr>user_key = k, sequence = s, type = t\<rparr>))) =
     push_bit 8 s OR ucast t \<and>
   fst (DecodeFrom this bytes) = (bytes \<noteq> []) \<and>
   rep (snd (DecodeFrom this bytes)) = bytes \<and>
   (8 \<le> length bytes \<longrightarrow>
      fst (DecodeFrom this bytes) \<and>
      8 \<le> length (rep (snd (DecodeFrom this bytes))) \<and>
      InternalKey_user_key (snd (DecodeFrom this bytes)) = Some (take (length bytes - 8) bytes))"
  by (auto simp add: InternalKey_new_def SetFrom_def DecodeFrom_def InternalKey_user_key_def
      ExtractUserKey_def AppendInternalKey_def DecodeFixed64_EncodeFixed64 PackSequenceAndType_def Let_def)

text \<open>
  Claim C4 as amended, at a 9-byte input of \<open>DecodeFrom\<close>, the encoding of
  \<open>("a", 42, kTypeValue)\<close>.
\<close>

theorem InternalKey_invariant_witness:
  "8 \<le> length [0x61, 0x01, 0x2a, 0, 0, 0, 0, 0, 0 :: byte] \<and>
   fst (DecodeFrom InternalKey_default [0x61, 0x01, 0x2a, 0, 0, 0, 0, 0, 0]) \<and>
   8 \<le> length (rep (snd (DecodeFrom InternalKey_default [0x61, 0x01, 0x2a, 0, 0, 0, 0, 0, 0]))) \<and>
   InternalKey_user_key (snd (DecodeFrom InternalKey_default [0x61, 0x01, 0x2a, 0, 0, 0, 0, 0, 0])) =
     Some [0x61] \<and>
   rep (InternalKey_new [0x61] 42 kTypeValue) = [0x61, 0x01, 0x2a, 0, 0, 0, 0, 0, 0]"
  using InternalKey_invariant [of "[0x61]" 42 kTypeValue InternalKey_default
      "[0x61, 0x01, 0x2a, 0, 0, 0, 0, 0, 0]"]
  by (simp add: InternalKey_new_def AppendInternalKey_def EncodeFixed64_def PackSequenceAndType_def
      kTypeValue_def)

text \<open>
  Claim C4, as stated, fails: \<open>DecodeFrom\<close> on the one-byte string \<open>"a"\<close> returns
  true, the key is no longer in its default state, and its representation is shorter
  than 8 bytes.
\<close>

theorem DecodeFrom_short_key:
  "fst (DecodeFrom InternalKey_default [0x61]) \<and>
   rep (snd (DecodeFrom InternalKey_default [0x61])) \<noteq> rep InternalKey_default \<and>
   \<not> 8 \<le> length (rep (snd (DecodeFrom InternalKey_default [0x61])))"
  by (simp add: DecodeFrom_def InternalKey_default_def)

section \<open>The order of internal keys\<close>

lemma Compare_keys_valid:
  assumes "8 \<le> length (rep a)" and "8 \<le> length (rep b)"
  shows "InternalKeyComparator_Compare_keys ucmp a b =
     (let r = ucmp (take (length (rep a) - 8) (rep a)) (take (length (rep b) - 8) (rep b));
          anum = DecodeFixed64 (drop (length (rep a) - 8) (rep a));
          bnum = DecodeFixed64 (drop (length (rep b) - 8) (rep b))
      in Some (if r \<noteq> 0 then r
               else if drop_bit 8 anum > drop_bit 8 bnum then -1
               else if drop_bit 8 anum < drop_bit 8 bnum then 1
               else if anum AND 0xff > bnum AND 0xff then -1
               else if anum AND 0xff < bnum AND 0xff then 1
               else 0))"
proof -
  from assms have "rep a \<noteq> []" "rep b \<noteq> []"
    by auto
  with assms show ?thesis
    by (simp add: InternalKeyComparator_Compare_keys_def Encode_def
        InternalKeyComparator_Compare_def ExtractUserKey_def Let_def)
qed

lemma descending_pair_less:
  fixes s s' :: "'a::linorder" and t t' :: "'b::linorder"
  shows "(if s' < s then - 1 else if s < s' then 1
          else if t' < t then - 1 else if t < t' then 1 else (0::int)) < 0 \<longleftrightarrow>
         s' < s \<or> (s = s' \<and> t' < t)"
  by auto

lemma sorts_before_valid:
  assumes "8 \<le> length (rep a)" and "8 \<le> length (rep b)"
    and "pa = snd (ParseInternalKey (rep a) r)" and "pb = snd (ParseInternalKey (rep b) r')"
  shows "sorts_before ucmp a b \<longleftrightarrow>
     ucmp (user_key pa) (user_key pb) < 0 \<or>
     (ucmp (user_key pa) (user_key pb) = 0 \<and>
       (sequence pa > sequence pb \<or> (sequence pa = sequence pb \<and> type pa > type pb)))"
proof -
  define anum where "anum = DecodeFixed64 (drop (length (rep a) - 8) (rep a))"
  define bnum where "bnum = DecodeFixed64 (drop (length (rep b) - 8) (rep b))"
  define ua where "ua = take (length (rep a) - 8) (rep a)"
  define ub where "ub = take (length (rep b) - 8) (rep b)"
  have pa: "user_key pa = ua" "sequence pa = drop_bit 8 anum" "type pa = ucast (anum AND 0xff)"
    by (simp_all add: assms(3) Parse_valid [OF assms(1)] ua_def anum_def)
  have pb: "user_key pb = ub" "sequence pb = drop_bit 8 bnum" "type pb = ucast (bnum AND 0xff)"
    by (simp_all add: assms(4) Parse_valid [OF assms(2)] ub_def bnum_def)
  have c: "InternalKeyComparator_Compare_keys ucmp a b =
      Some (if ucmp ua ub \<noteq> 0 then ucmp ua ub
               else if drop_bit 8 anum > drop_bit 8 bnum then -1
               else if drop_bit 8 anum < drop_bit 8 bnum then 1
               else if anum AND 0xff > bnum AND 0xff then -1
               else if anum AND 0xff < bnum AND 0xff then 1
               else 0)"
    by (simp only: Compare_keys_valid [OF assms(1,2)] Let_def anum_def bnum_def ua_def ub_def)
  show ?thesis
  proof (cases "ucmp ua ub = 0")
    case False
    then show ?thesis
      by (simp add: sorts_before_def c pa pb)
  next
    case True
    have "sorts_before ucmp a b \<longleftrightarrow>
        drop_bit 8 bnum < drop_bit 8 anum \<or>
        (drop_bit 8 anum = drop_bit 8 bnum \<and> bnum AND 0xff < anum AND 0xff)"
      unfolding sorts_before_def c using True
      by (simp add: descending_pair_less)
    then show ?thesis
      by (simp add: pa pb low_byte_less True)
  qed
qed

lemma descending_triple_trans:
  fixes sa sb sc :: "'s::order" and ta tb tc :: "'t::order" and ucmp :: "'k \<Rightarrow> 'k \<Rightarrow> int"
  assumes "ucmp ua ub < 0 \<Longrightarrow> ucmp ub uc < 0 \<Longrightarrow> ucmp ua uc < 0"
    and "ucmp ua ub < 0 \<or> (ua = ub \<and> (sb < sa \<or> (sa = sb \<and> tb < ta)))"
    and "ucmp ub uc < 0 \<or> (ub = uc \<and> (sc < sb \<or> (sb = sc \<and> tc < tb)))"
  shows "ucmp ua uc < 0 \<or> (ua = uc \<and> (sc < sa \<or> (sa = sc \<and> tc < ta)))"
  using assms order.strict_trans [of sc sb sa] order.strict_trans [of tc tb ta]
  by blast

lemma descending_triple_asym:
  fixes sa sb :: "'s::order" and ta tb :: "'t::order" and ucmp :: "'k \<Rightarrow> 'k \<Rightarrow> int"
  assumes "\<not> (ucmp ua ub < 0 \<and> ucmp ub ua < 0)" and "\<not> ucmp ub ub < 0"
    and "ucmp ua ub < 0 \<or> (ua = ub \<and> (sb < sa \<or> (sa = sb \<and> tb < ta)))"
    and "ucmp ub ua < 0 \<or> (ub = ua \<and> (sa < sb \<or> (sb = sa \<and> ta < tb)))"
  shows False
  using assms order.asym [of sa sb] order.asym [of ta tb]
  by blast

text \<open>
  Claim C1. Let the user comparator be a three-way comparison that is a strict total
  order on user keys. On internal keys of at least 8 bytes, \<open>Compare\<close> returns a
  result, and "Compare returns a negative number" is a strict total order: irreflexive,
  transitive, total and asymmetric. It orders keys by the user comparator on their user
  keys first, keys with equal user keys by descending sequence number, and keys with
  equal sequence numbers by descending operation code.
\<close>

theorem InternalKeyComparator_strict_total_order:
  assumes "\<forall>x y. (ucmp x y < 0) = (0 < ucmp y x)"
    and "\<forall>x y. (ucmp x y = 0) = (x = y)"
    and "\<forall>x y z. ucmp x y < 0 \<and> ucmp y z < 0 \<longrightarrow> ucmp x z < 0"
    and "8 \<le> length (rep a)" and "8 \<le> length (rep b)" and "8 \<le> length (rep c)"
    and "pa = snd (ParseInternalKey (rep a) r)" and "pb = snd (ParseInternalKey (rep b) r)"
  shows "InternalKeyComparator_Compare_keys ucmp a b \<noteq> None \<and>
     \<not> sorts_before ucmp a a \<and>
     (sorts_before ucmp a b \<and> sorts_before ucmp b c \<longrightarrow> sorts_before ucmp a c) \<and>
     (a = b \<or> sorts_before ucmp a b \<or> sorts_before ucmp b a) \<and>
     \<not> (sorts_before ucmp a b \<and> sorts_before ucmp b a) \<and>
     (sorts_before ucmp a b \<longleftrightarrow>
        ucmp (user_key pa) (user_key pb) < 0 \<or>
        (user_key pa = user_key pb \<and>
          (sequence pa > sequence pb \<or> (sequence pa = sequence pb \<and> type pa > type pb))))"
proof -
  define pc where "pc = snd (ParseInternalKey (rep c) r)"
  note ab = sorts_before_valid [OF assms(4,5) assms(7,8), of ucmp]
  note ba = sorts_before_valid [OF assms(5,4) assms(8,7), of ucmp]
  note aa = sorts_before_valid [OF assms(4,4) assms(7,7), of ucmp]
  note bc = sorts_before_valid [OF assms(5,6) assms(8) pc_def, of ucmp]
  note ac = sorts_before_valid [OF assms(4,6) assms(7) pc_def, of ucmp]
  have eq0: "ucmp x y = 0 \<longleftrightarrow> x = y" for x y
    using assms(2) by blast
  have irr: "\<not> ucmp x x < 0" for x
    using assms(2) by (metis less_irrefl)
  have asym: "\<not> (ucmp x y < 0 \<and> ucmp y x < 0)" for x y
    using assms(1) by (metis less_asym)
  have tot: "ucmp x y < 0 \<or> x = y \<or> ucmp y x < 0" for x y
    using assms(1,2) by (metis less_linear)
  have tr: "ucmp x y < 0 \<Longrightarrow> ucmp y z < 0 \<Longrightarrow> ucmp x z < 0" for x y z
    using assms(3) by blast
  have 1: "InternalKeyComparator_Compare_keys ucmp a b \<noteq> None"
    by (simp add: Compare_keys_valid [OF assms(4,5)] Let_def)
  have 2: "\<not> sorts_before ucmp a a"
    unfolding aa eq0 using irr by simp
  have 3: "sorts_before ucmp a b \<and> sorts_before ucmp b c \<longrightarrow> sorts_before ucmp a c"
  proof (intro impI, elim conjE)
    assume "sorts_before ucmp a b" and "sorts_before ucmp b c"
    then have A: "ucmp (user_key pa) (user_key pb) < 0 \<or>
        (user_key pa = user_key pb \<and>
          (sequence pb < sequence pa \<or> (sequence pa = sequence pb \<and> type pb < type pa)))"
      and B: "ucmp (user_key pb) (user_key pc) < 0 \<or>
        (user_key pb = user_key pc \<and>
          (sequence pc < sequence pb \<or> (sequence pb = sequence pc \<and> type pc < type pb)))"
      unfolding ab bc eq0 by simp_all
    have "ucmp (user_key pa) (user_key pc) < 0 \<or>
        (user_key pa = user_key pc \<and>
          (sequence pc < sequence pa \<or> (sequence pa = sequence pc \<and> type pc < type pa)))"
      using tr A B by (rule descending_triple_trans [where ucmp = ucmp])
    then show "sorts_before ucmp a c"
      unfolding ac eq0 .
  qed
  have 5: "\<not> (sorts_before ucmp a b \<and> sorts_before ucmp b a)"
  proof (intro notI, elim conjE)
    assume "sorts_before ucmp a b" and "sorts_before ucmp b a"
    then have A: "ucmp (user_key pa) (user_key pb) < 0 \<or>
        (user_key pa = user_key pb \<and>
          (sequence pb < sequence pa \<or> (sequence pa = sequence pb \<and> type pb < type pa)))"
      and B: "ucmp (user_key pb) (user_key pa) < 0 \<or>
        (user_key pb = user_key pa \<and>
          (sequence pa < sequence pb \<or> (sequence pb = sequence pa \<and> type pa < type pb)))"
      unfolding ab ba eq0 by simp_all
    from asym [of "user_key pa" "user_key pb"] irr [of "user_key pb"] A B show False
      by (rule descending_triple_asym [where ucmp = ucmp])
  qed
  have 4: "a = b \<or> sorts_before ucmp a b \<or> sorts_before ucmp b a"
  proof (rule disjCI)
    assume n: "\<not> (sorts_before ucmp a b \<or> sorts_before ucmp b a)"
    then have u: "user_key pa = user_key pb"
      unfolding ab ba using tot [of "user_key pa" "user_key pb"] by blast
    with n have s: "sequence pa = sequence pb" and t: "type pa = type pb"
      unfolding ab ba eq0 by auto
    have "rep a = rep b"
    proof (rule internal_key_eqI [OF assms(4,5)])
      show "take (length (rep a) - 8) (rep a) = take (length (rep b) - 8) (rep b)"
        using u by (simp add: assms(7,8) Parse_valid [OF assms(4)] Parse_valid [OF assms(5)])
      show "DecodeFixed64 (drop (length (rep a) - 8) (rep a)) =
          DecodeFixed64 (drop (length (rep b) - 8) (rep b))"
      proof (rule tag_word_eqI)
        show "drop_bit 8 (DecodeFixed64 (drop (length (rep a) - 8) (rep a))) =
            drop_bit 8 (DecodeFixed64 (drop (length (rep b) - 8) (rep b)))"
          using s by (simp add: assms(7,8) Parse_valid [OF assms(4)] Parse_valid [OF assms(5)])
        show "DecodeFixed64 (drop (length (rep a) - 8) (rep a)) AND 0xff =
            DecodeFixed64 (drop (length (rep b) - 8) (rep b)) AND 0xff"
          using t
          by (simp add: assms(7,8) Parse_valid [OF assms(4)] Parse_valid [OF assms(5)] low_byte_eq)
      qed
    qed
    then show "a = b"
      by simp
  qed
  have 6: "sorts_before ucmp a b \<longleftrightarrow>
        ucmp (user_key pa) (user_key pb) < 0 \<or>
        (user_key pa = user_key pb \<and>
          (sequence pa > sequence pb \<or> (sequence pa = sequence pb \<and> type pa > type pb)))"
    unfolding ab eq0 ..
  from 1 2 3 4 5 6 show ?thesis
    by blast
qed

text \<open>
  Claim C1, with the bytewise comparator as user comparator, at the keys
  \<open>("a", 5, 1)\<close>, \<open>("a", 3, 1)\<close> and \<open>("b", 9, 1)\<close>: they sort in this order.
\<close>

theorem InternalKeyComparator_strict_total_order_witness:
  "8 \<le> length (rep \<lparr>rep = [0x61, 0x01, 0x05, 0, 0, 0, 0, 0, 0]\<rparr>) \<and>
   snd (ParseInternalKey [0x61, 0x01, 0x05, 0, 0, 0, 0, 0, 0] \<lparr>user_key = [], sequence = 0, type = 0\<rparr>) =
     \<lparr>user_key = [0x61], sequence = 5, type = 1\<rparr> \<and>
   InternalKeyComparator_Compare_keys BytewiseCompare
     \<lparr>rep = [0x61, 0x01, 0x05, 0, 0, 0, 0, 0, 0]\<rparr> \<lparr>rep = [0x61, 0x01, 0x03, 0, 0, 0, 0, 0, 0]\<rparr> = Some (- 1) \<and>
   sorts_before BytewiseCompare
     \<lparr>rep = [0x61, 0x01, 0x05, 0, 0, 0, 0, 0, 0]\<rparr> \<lparr>rep = [0x61, 0x01, 0x03, 0, 0, 0, 0, 0, 0]\<rparr> \<and>
   sorts_before BytewiseCompare
     \<lparr>rep = [0x61, 0x01, 0x03, 0, 0, 0, 0, 0, 0]\<rparr> \<lparr>rep = [0x62, 0x01, 0x09, 0, 0, 0, 0, 0, 0]\<rparr> \<and>
   sorts_before BytewiseCompare
     \<lparr>rep = [0x61, 0x01, 0x05, 0, 0, 0, 0, 0, 0]\<rparr> \<lparr>rep = [0x62, 0x01, 0x09, 0, 0, 0, 0, 0, 0]\<rparr> \<and>
   \<not> sorts_before BytewiseCompare
     \<lparr>rep = [0x61, 0x01, 0x03, 0, 0, 0, 0, 0, 0]\<rparr> \<lparr>rep = [0x61, 0x01, 0x05, 0, 0, 0, 0, 0, 0]\<rparr>"
proof -
  let ?a = "\<lparr>rep = [0x61, 0x01, 0x05, 0, 0, 0, 0, 0, 0]\<rparr>"
  let ?b = "\<lparr>rep = [0x61, 0x01, 0x03, 0, 0, 0, 0, 0, 0]\<rparr>"
  let ?c = "\<lparr>rep = [0x62, 0x01, 0x09, 0, 0, 0, 0, 0, 0]\<rparr>"
  let ?r = "\<lparr>user_key = [], sequence = 0, type = 0\<rparr>"
  have h1: "\<forall>x y. (BytewiseCompare x y < 0) = (0 < BytewiseCompare y x)"
    by (simp add: BytewiseCompare_def slice_compare_antisym)
  have h2: "\<forall>x y. (BytewiseCompare x y = 0) = (x = y)"
    by (simp add: BytewiseCompare_def slice_compare_eq_0)
  have h3: "\<forall>x y z. BytewiseCompare x y < 0 \<and> BytewiseCompare y z < 0 \<longrightarrow> BytewiseCompare x z < 0"
    unfolding BytewiseCompare_def using slice_compare_trans by blast
  have la: "8 \<le> length (rep ?a)" and lb: "8 \<le> length (rep ?b)" and lc: "8 \<le> length (rep ?c)"
    by simp_all
  have d: "DecodeFixed64 [0x01, 0x05, 0, 0, 0, 0, 0, 0] = 0x0501"
    "DecodeFixed64 [0x01, 0x03, 0, 0, 0, 0, 0, 0] = 0x0301"
    "DecodeFixed64 [0x01, 0x09, 0, 0, 0, 0, 0, 0] = 0x0901"
    by (simp_all add: DecodeFixed64_def)
  have pa: "\<lparr>user_key = [0x61], sequence = 5, type = 1\<rparr> = snd (ParseInternalKey (rep ?a) ?r)"
    and pb: "\<lparr>user_key = [0x61], sequence = 3, type = 1\<rparr> = snd (ParseInternalKey (rep ?b) ?r)"
    and pc: "\<lparr>user_key = [0x62], sequence = 9, type = 1\<rparr> = snd (ParseInternalKey (rep ?c) ?r)"
    by (simp_all add: ParseInternalKey_def Let_def d)
  have cmp: "InternalKeyComparator_Compare_keys BytewiseCompare ?a ?b = Some (- 1)"
    by (simp add: InternalKeyComparator_Compare_keys_def InternalKeyComparator_Compare_def
        Encode_def ExtractUserKey_def BytewiseCompare_def Let_def d)
  note ab = InternalKeyComparator_strict_total_order [OF h1 h2 h3 la lb lc pa pb]
  note bc = InternalKeyComparator_strict_total_order [OF h1 h2 h3 lb lc la pb pc]
  note ba = InternalKeyComparator_strict_total_order [OF h1 h2 h3 lb la lc pb pa]
  have 1: "sorts_before BytewiseCompare ?a ?b"
    using ab by simp
  have e: "BytewiseCompare [0x61] [0x62] < 0"
    by (simp add: BytewiseCompare_def)
  have 2: "sorts_before BytewiseCompare ?b ?c"
    using bc e by simp
  have 3: "sorts_before BytewiseCompare ?a ?c"
    using ab 1 2 by blast
  have 4: "\<not> sorts_before BytewiseCompare ?b ?a"
    using ab 1 by blast
  from la pa [symmetric] cmp 1 2 3 4 show ?thesis
    by simp
qed

section \<open>The arena\<close>

lemma and_7_eq_take_bit: "(p :: 64 word) AND 7 = take_bit 3 p"
proof -
  have "(7 :: 64 word) = mask 3"
    by (simp add: mask_eq_exp_minus_1)
  then show ?thesis
    by (simp add: take_bit_eq_mask)
qed

lemma aligned_after_slop:
  fixes p :: "64 word"
  shows "(p + (if p AND 7 = 0 then 0 else 8 - (p AND 7))) AND 7 = 0"
proof (cases "p AND 7 = 0")
  case True
  then show ?thesis by simp
next
  case False
  have "push_bit 3 (drop_bit 3 p) + take_bit 3 p = p"
    by (rule bits_ident)
  then have "p - take_bit 3 p = push_bit 3 (drop_bit 3 p)"
    by (metis add_diff_cancel_right')
  then have "p + (8 - take_bit 3 p) = push_bit 3 (drop_bit 3 p) + push_bit 3 1"
    by (simp add: algebra_simps)
  also have "\<dots> = push_bit 3 (drop_bit 3 p + 1)"
    by (simp only: push_bit_add)
  finally have "take_bit 3 (p + (8 - take_bit 3 p)) = 0"
    by (simp only: take_bit_push_bit) simp
  with False show ?thesis
    by (simp add: and_7_eq_take_bit)
qed

lemma and_7_unat: "(p :: 64 word) AND 7 = 0 \<longleftrightarrow> unat p mod 8 = 0"
proof -
  have "unat (take_bit 3 p) = unat p mod 8"
    by (simp only: unsigned_take_bit_eq) (simp add: take_bit_eq_mod)
  then show ?thesis
    by (metis and_7_eq_take_bit unat_eq_0)
qed

lemma AllocateFallback_result:
  "fst (AllocateFallback sys bytes (this, h)) =
     (if bytes > 1024 then sys h bytes else sys h 4096)"
  by (simp add: AllocateFallback_def AllocateNewBlock_def new_char_array_def kBlockSize_def Let_def)

lemma push_bit_12_aligned: "push_bit 12 (x :: 64 word) AND 7 = 0"
  by (simp add: and_7_eq_take_bit take_bit_push_bit)

text \<open>
  Claim C9. When the request exceeds a quarter of the block size (\<open>bytes > 1024\<close>),
  \<open>AllocateFallback\<close> obtains one block of exactly \<open>bytes\<close> bytes from the system
  allocator and returns its address; \<open>alloc_ptr_\<close> and \<open>alloc_bytes_remaining_\<close> keep
  their values (the block list and the usage counter record the block). Otherwise it
  obtains a block of 4096 bytes, returns its address, and leaves \<open>alloc_ptr_\<close> at that
  address plus \<open>bytes\<close> and \<open>alloc_bytes_remaining_\<close> at \<open>4096 - bytes\<close>.
\<close>

theorem AllocateFallback_cases:
  "(bytes > 1024 \<longrightarrow>
      AllocateFallback sys bytes (this, h) =
        (sys h bytes,
         this\<lparr>blocks := blocks this @ [sys h bytes],
              memory_usage := memory_usage this + (bytes + 8)\<rparr>,
         h @ [(sys h bytes, bytes)]) \<and>
      alloc_ptr (fst (snd (AllocateFallback sys bytes (this, h)))) = alloc_ptr this \<and>
      alloc_bytes_remaining (fst (snd (AllocateFallback sys bytes (this, h)))) =
        alloc_bytes_remaining this) \<and>
   (bytes \<le> 1024 \<longrightarrow>
      AllocateFallback sys bytes (this, h) =
        (sys h 4096,
         this\<lparr>alloc_ptr := sys h 4096 + bytes,
              alloc_bytes_remaining := 4096 - bytes,
              blocks := blocks this @ [sys h 4096],
              memory_usage := memory_usage this + (4096 + 8)\<rparr>,
         h @ [(sys h 4096, 4096)]))"
  by (simp add: AllocateFallback_def AllocateNewBlock_def new_char_array_def kBlockSize_def
      sizeof_pointer_def Let_def not_less [symmetric])

text \<open>
  Claim C9, at requests of 2000 and of 100 bytes, with an allocator that hands out
  the addresses \<open>0x1000\<close>, \<open>0x2000\<close>, ...
\<close>

theorem AllocateFallback_cases_witness:
  "(2000 :: size_t) > 1024 \<and>
   AllocateFallback (\<lambda>h n. push_bit 12 (of_nat (Suc (length h)))) 2000
     (\<lparr>alloc_ptr = 0x1ff0, alloc_bytes_remaining = 16, blocks = [0x1000],
       memory_usage = 4104\<rparr>, [(0x1000, 4096)]) =
     (0x2000,
      \<lparr>alloc_ptr = 0x1ff0, alloc_bytes_remaining = 16, blocks = [0x1000, 0x2000],
       memory_usage = 6112\<rparr>, [(0x1000, 4096), (0x2000, 2000)]) \<and>
   (100 :: size_t) \<le> 1024 \<and>
   AllocateFallback (\<lambda>h n. push_bit 12 (of_nat (Suc (length h)))) 100
     (\<lparr>alloc_ptr = 0x1ff0, alloc_bytes_remaining = 16, blocks = [0x1000],
       memory_usage = 4104\<rparr>, [(0x1000, 4096)]) =
     (0x2000,
      \<lparr>alloc_ptr = 0x2064, alloc_bytes_remaining = 3996, blocks = [0x1000, 0x2000],
       memory_usage = 8208\<rparr>, [(0x1000, 4096), (0x2000, 4096)])"
  using AllocateFallback_cases [of 2000 "\<lambda>h n. push_bit 12 (of_nat (Suc (length h)))"
      "\<lparr>alloc_ptr = 0x1ff0, alloc_bytes_remaining = 16, blocks = [0x1000], memory_usage = 4104\<rparr>"
      "[(0x1000, 4096)]"]
    AllocateFallback_cases [of 100 "\<lambda>h n. push_bit 12 (of_nat (Suc (length h)))"
      "\<lparr>alloc_ptr = 0x1ff0, alloc_bytes_remaining = 16, blocks = [0x1000], memory_usage = 4104\<rparr>"
      "[(0x1000, 4096)]"]
  by simp

text \<open>
  Claim C8. If every address the system allocator returns is a multiple of 8, then
  \<open>AllocateAligned\<close>, for any request size and in any arena state, passes its final
  assertion and returns an address that is a multiple of 8.
\<close>

theorem AllocateAligned_aligned:
  assumes "\<forall>h n. sys h n AND 7 = 0"
  shows "\<exists>result s'. AllocateAligned sys n s = Some (result, s') \<and>
           result AND 7 = 0 \<and> unat result mod 8 = 0"
proof -
  obtain this h where s: "s = (this, h)"
    by (cases s)
  define slop where
    "slop = (if alloc_ptr this AND 7 = 0 then 0 else 8 - (alloc_ptr this AND 7))"
  define fits where "fits \<longleftrightarrow> n + slop \<le> alloc_bytes_remaining this"
  define r where
    "r = (if fits
          then (alloc_ptr this + slop,
                this\<lparr>alloc_ptr := alloc_ptr this + (n + slop),
                     alloc_bytes_remaining := alloc_bytes_remaining this - (n + slop)\<rparr>, h)
          else AllocateFallback sys n (this, h))"
  have al: "fst r AND 7 = 0"
  proof (cases fits)
    case True
    then show ?thesis
      using aligned_after_slop [of "alloc_ptr this"] by (simp add: r_def slop_def)
  next
    case False
    then show ?thesis
      using assms by (simp add: r_def AllocateFallback_result)
  qed
  have "AllocateAligned sys n s = (if fst r AND 7 = 0 then Some r else None)"
    unfolding s AllocateAligned_def r_def fits_def slop_def
    by (simp add: sizeof_pointer_def Let_def case_prod_beta)
  with al have "AllocateAligned sys n s = Some (fst r, snd r)"
    by simp
  moreover have "unat (fst r) mod 8 = 0"
    using al by (simp only: and_7_unat)
  ultimately have "AllocateAligned sys n s = Some (fst r, snd r) \<and>
      fst r AND 7 = 0 \<and> unat (fst r) mod 8 = 0"
    using al by (intro conjI)
  then show ?thesis
    by (intro exI)
qed

text \<open>
  Claim C8, with an allocator that hands out the addresses \<open>0x1000\<close>, \<open>0x2000\<close>, ...:
  a request of 16 bytes that fits the current block after 5 bytes of padding, and the
  same request on a fresh arena, which goes through \<open>AllocateFallback\<close>.
\<close>

theorem AllocateAligned_aligned_witness:
  "(\<exists>result s'.
      AllocateAligned (\<lambda>h n. push_bit 12 (of_nat (Suc (length h)))) 16
        (\<lparr>alloc_ptr = 0x1003, alloc_bytes_remaining = 4093, blocks = [0x1000],
          memory_usage = 4104\<rparr>, [(0x1000, 4096)]) = Some (result, s') \<and>
      result AND 7 = 0 \<and> unat result mod 8 = 0) \<and>
   AllocateAligned (\<lambda>h n. push_bit 12 (of_nat (Suc (length h)))) 16
     (\<lparr>alloc_ptr = 0x1003, alloc_bytes_remaining = 4093, blocks = [0x1000],
       memory_usage = 4104\<rparr>, [(0x1000, 4096)]) =
     Some (0x1008,
       \<lparr>alloc_ptr = 0x1018, alloc_bytes_remaining = 4072, blocks = [0x1000],
        memory_usage = 4104\<rparr>, [(0x1000, 4096)]) \<and>
   AllocateAligned (\<lambda>h n. push_bit 12 (of_nat (Suc (length h)))) 16 (Arena_new, []) =
     Some (0x1000,
       \<lparr>alloc_ptr = 0x1010, alloc_bytes_remaining = 4080, blocks = [0x1000],
        memory_usage = 4104\<rparr>, [(0x1000, 4096)])"
proof -
  have h: "\<forall>h n. (\<lambda>h n. push_bit 12 (of_nat (Suc (length h)))) h n AND (7 :: 64 word) = 0"
    by (simp add: push_bit_12_aligned)
  have 1: "AllocateAligned (\<lambda>h n. push_bit 12 (of_nat (Suc (length h)))) 16
     (\<lparr>alloc_ptr = 0x1003, alloc_bytes_remaining = 4093, blocks = [0x1000],
       memory_usage = 4104\<rparr>, [(0x1000, 4096)]) =
     Some (0x1008,
       \<lparr>alloc_ptr = 0x1018, alloc_bytes_remaining = 4072, blocks = [0x1000],
        memory_usage = 4104\<rparr>, [(0x1000, 4096)])"
    by (simp add: AllocateAligned_def sizeof_pointer_def Let_def)
  have 2: "AllocateAligned (\<lambda>h n. push_bit 12 (of_nat (Suc (length h)))) 16 (Arena_new, []) =
     Some (0x1000,
       \<lparr>alloc_ptr = 0x1010, alloc_bytes_remaining = 4080, blocks = [0x1000],
        memory_usage = 4104\<rparr>, [(0x1000, 4096)])"
    by (simp add: AllocateAligned_def AllocateFallback_def AllocateNewBlock_def new_char_array_def
        Arena_new_def kBlockSize_def sizeof_pointer_def Let_def)
  from AllocateAligned_aligned [OF h] 1 2 show ?thesis
    by (intro conjI)
qed

end
